theory Spec2Isabelle
  imports Main "HOL-Library.Word"
begin

unbundle bit_operations_syntax

section \<open>Data model\<close>

text \<open>
  The harness runs on a 32-bit big-endian PowerPC: \<open>u32\<close>, \<open>uintptr_t\<close> and \<open>size_t\<close> are
  all 32-bit unsigned integers whose arithmetic wraps. Memory is a flat array of bytes
  indexed by 32-bit addresses, so pointer arithmetic is word arithmetic.
\<close>

type_synonym u8 = "8 word"
type_synonym u32 = "32 word"
type_synonym uintptr_t = "32 word"
type_synonym memory = "32 word \<Rightarrow> 8 word"

datatype Mode = Regular | Swap | Stswi | Stswx

definition STSW_VALUES :: "u8 list" where
  "STSW_VALUES =
    [0x10, 0x11, 0x12, 0x13, 0x14, 0x15, 0x16, 0x17,
     0x18, 0x19, 0x1a, 0x1b, 0x1c, 0x1d, 0x1e, 0x1f,
     0x20, 0x21, 0x22, 0x23, 0x24, 0x25, 0x26, 0x27,
     0x28, 0x29, 0x2a, 0x2b, 0x2c, 0x2d, 0x2e, 0x2f]"

section \<open>The store instructions issued by \<open>Write\<close>\<close>

text \<open>
  \<open>Write\<close> is a switch over inline assembly. Each instruction is given its architectural
  meaning on ordinary (cache-backed) memory, which is where the reference buffer lives:
  \<open>stbx\<close> stores the low byte, \<open>sthx\<close> the low halfword and \<open>stwx\<close> the word, most
  significant byte first; \<open>sthbrx\<close> and \<open>stwbrx\<close> store the same bytes in reverse order.
\<close>

definition stbx :: "memory \<Rightarrow> u32 \<Rightarrow> u32 \<Rightarrow> memory" where
  "stbx mem v p = mem(p := ucast v)"

definition sthx :: "memory \<Rightarrow> u32 \<Rightarrow> u32 \<Rightarrow> memory" where
  "sthx mem v p = mem(p := ucast (drop_bit 8 v), p + 1 := ucast v)"

definition sthbrx :: "memory \<Rightarrow> u32 \<Rightarrow> u32 \<Rightarrow> memory" where
  "sthbrx mem v p = mem(p := ucast v, p + 1 := ucast (drop_bit 8 v))"

definition stwx :: "memory \<Rightarrow> u32 \<Rightarrow> u32 \<Rightarrow> memory" where
  "stwx mem v p =
     mem(p := ucast (drop_bit 24 v), p + 1 := ucast (drop_bit 16 v),
         p + 2 := ucast (drop_bit 8 v), p + 3 := ucast v)"

definition stwbrx :: "memory \<Rightarrow> u32 \<Rightarrow> u32 \<Rightarrow> memory" where
  "stwbrx mem v p =
     mem(p := ucast v, p + 1 := ucast (drop_bit 8 v),
         p + 2 := ucast (drop_bit 16 v), p + 3 := ucast (drop_bit 24 v))"

text \<open>\<open>Write\<close>: a size other than 4, 2 or 1 matches no case of the switch and stores nothing.\<close>

definition Write :: "memory \<Rightarrow> u32 \<Rightarrow> u32 \<Rightarrow> u32 \<Rightarrow> bool \<Rightarrow> memory" where
  "Write mem ptr val sz swap =
     (if sz = 4 then (if swap then stwbrx mem val ptr else stwx mem val ptr)
      else if sz = 2 then (if swap then sthbrx mem val ptr else sthx mem val ptr)
      else if sz = 1 then stbx mem val ptr
      else mem)"

section \<open>The reference model of the quirk\<close>

text \<open>
  Modelled from the spec: \<open>Common::RotateRight\<close> is declared in \<open>Common/BitUtils.h\<close>, which
  is not among the sources. The spec says the value is right-rotated by the given number
  of bits; the amount arrives as a 32-bit unsigned integer.
\<close>

definition RotateRight :: "u32 \<Rightarrow> u32 \<Rightarrow> u32" where
  "RotateRight val amount = word_rotr (unat amount) val"

text \<open>
  Modelled from the spec: \<open>Common::RotateLeft\<close>, the inverse direction named by the
  rotation round-trip property, is declared in the same missing header.
\<close>

definition RotateLeft :: "u32 \<Rightarrow> u32 \<Rightarrow> u32" where
  "RotateLeft val amount = word_rotl (unat amount) val"

text \<open>
  The loop \<open>for (uintptr_t i = 0; i < count; i += 8)\<close> of \<open>WriteWithSimulatedQuirks\<close>.
  The counter is a 32-bit word: for a count above \<open>2^32 - 8\<close> it wraps before reaching the
  count and the loop never ends, which is the value \<open>None\<close>.
\<close>

partial_function (option) quirk_loop ::
  "memory \<Rightarrow> u32 \<Rightarrow> uintptr_t \<Rightarrow> u32 \<Rightarrow> uintptr_t \<Rightarrow> uintptr_t \<Rightarrow> memory option" where
  "quirk_loop mem ptr misalignment_64 val count i =
     (if i < count then
        quirk_loop
          (Write (Write mem (ptr - misalignment_64 + i) val 4 False)
                 (ptr - misalignment_64 + i + 4) val 4 False)
          ptr misalignment_64 val count (i + 8)
      else Some mem)"

declare quirk_loop.simps [code]

definition WriteWithSimulatedQuirks ::
  "memory \<Rightarrow> uintptr_t \<Rightarrow> u32 \<Rightarrow> u32 \<Rightarrow> u32 \<Rightarrow> memory option" where
  "WriteWithSimulatedQuirks mem alignment ptr val sz =
     (let misalignment_32 = alignment AND 3 in
      if misalignment_32 \<noteq> 0 \<or> sz < 4 then
        (let misalignment_64 = alignment AND 7;
             count = misalignment_64 + sz
         in quirk_loop mem ptr misalignment_64
              (RotateRight val ((misalignment_32 + sz) * 8)) count 0)
      else Some (Write mem ptr val sz False))"

section \<open>The string-store dispatcher\<close>

text \<open>
  \<open>stswi\<close> carries its byte count as an immediate field of five bits, where 0 stands for
  32 (the comment in \<open>WriteStswi\<close> says so). \<open>stswi_bytes\<close> is the number of bytes the
  instruction with immediate \<open>NB\<close> stores.
\<close>

definition stswi_bytes :: "nat \<Rightarrow> nat" where
  "stswi_bytes NB = (if NB = 0 then 32 else NB)"

text \<open>\<open>std::copy\<close> of a byte sequence to consecutive addresses.\<close>

fun copy_bytes :: "memory \<Rightarrow> u32 \<Rightarrow> u8 list \<Rightarrow> memory" where
  "copy_bytes mem out_ptr [] = mem"
| "copy_bytes mem out_ptr (b # bs) = copy_bytes (mem(out_ptr := b)) (out_ptr + 1) bs"

text \<open>
  \<open>WriteStswiImpl<OutSize>\<close>: \<open>lswx\<close> stages \<open>in_size\<close> bytes of the source in the
  registers r24 to r31, and \<open>stswi\<close> with the immediate \<open>OutSize\<close> stores
  \<open>stswi_bytes OutSize\<close> of them. The eight registers hold 32 bytes; the sequence is
  modelled where every stored byte was staged from the source (\<open>None\<close> otherwise).
\<close>

definition WriteStswiImpl :: "nat \<Rightarrow> memory \<Rightarrow> u32 \<Rightarrow> u8 list \<Rightarrow> u32 \<Rightarrow> memory option" where
  "WriteStswiImpl OutSize mem out_ptr in_bytes in_size =
     (if stswi_bytes OutSize \<le> unat in_size \<and> unat in_size \<le> length in_bytes
         \<and> unat in_size \<le> 32
      then Some (copy_bytes mem out_ptr (take (stswi_bytes OutSize) in_bytes))
      else None)"

text \<open>The table of \<open>WriteStswi\<close>, each entry named by its template argument.\<close>

definition stswi_table :: "nat list" where
  "stswi_table =
    [0,  1,  2,  3,  4,  5,  6,  7,  8,  9,  10, 11, 12, 13, 14, 15,
     16, 17, 18, 19, 20, 21, 22, 23, 24, 25, 26, 27, 28, 29, 30, 31]"

definition WriteStswi :: "memory \<Rightarrow> u32 \<Rightarrow> u8 list \<Rightarrow> u32 \<Rightarrow> u32 \<Rightarrow> memory option" where
  "WriteStswi mem out_ptr in_bytes out_size in_size =
     WriteStswiImpl (stswi_table ! unat (out_size AND 31)) mem out_ptr in_bytes in_size"

text \<open>
  \<open>WriteStswSimulated\<close> copies \<open>size\<close> bytes; reading past the end of the source array
  has no defined result and is \<open>None\<close>.
\<close>

definition WriteStswSimulated :: "memory \<Rightarrow> u32 \<Rightarrow> u8 list \<Rightarrow> u32 \<Rightarrow> memory option" where
  "WriteStswSimulated mem out_ptr in_bytes sz =
     (if unat sz \<le> length in_bytes
      then Some (copy_bytes mem out_ptr (take (unat sz) in_bytes))
      else None)"

section \<open>The sweep\<close>

definition word :: u32 where
  "word = 0x12345678"

definition swapped_word :: "Mode \<Rightarrow> u32 \<Rightarrow> u32" where
  "swapped_word mode sz =
     (if mode = Swap then (if sz = 2 then 0x12347856 else 0x78563412) else word)"

definition fill_word :: u32 where
  "fill_word = 0x01020304"

text \<open>\<open>std::fill\<close> over \<open>n\<close> consecutive 32-bit words, each stored most significant byte first.\<close>

fun fill_u32 :: "memory \<Rightarrow> u32 \<Rightarrow> nat \<Rightarrow> u32 \<Rightarrow> memory" where
  "fill_u32 mem first 0 v = mem"
| "fill_u32 mem first (Suc n) v = fill_u32 (stwx mem v first) (first + 4) n v"

definition read_bytes :: "memory \<Rightarrow> u32 \<Rightarrow> nat \<Rightarrow> u8 list" where
  "read_bytes mem p n = map (\<lambda>k. mem (p + of_nat k)) [0..<n]"

text \<open>
  The modelled store of one trial into the reference buffer: a byte copy for the string
  modes, a plain \<open>Write\<close> on cache-backed memory, the quirk model otherwise.
\<close>

definition reference_store ::
  "memory \<Rightarrow> u32 \<Rightarrow> u32 \<Rightarrow> bool \<Rightarrow> Mode \<Rightarrow> u32 \<Rightarrow> memory option" where
  "reference_store mem reference_buffer sz cached_memory mode i =
     (if mode = Stswi \<or> mode = Stswx then
        WriteStswSimulated mem (reference_buffer + i) STSW_VALUES sz
      else if cached_memory then
        Some (Write mem (reference_buffer + i) (swapped_word mode sz) sz False)
      else
        WriteWithSimulatedQuirks mem i (reference_buffer + i) (swapped_word mode sz) sz)"

text \<open>
  One iteration of the loop of \<open>UnalignedStoresTest\<close>. The store on the real hardware is
  opaque: \<open>hw i\<close> is the 32 bytes found at \<open>ptr\<close> after the real store at offset \<open>i\<close>,
  together with the value of \<open>s_pi_error_occurred\<close> read after it.

  Modelled from the spec: the macro \<open>DO_TEST\<close> comes from \<open>Common/hwtests.h\<close>, which is
  not among the sources. By the spec a failed test is reported and the loop continues, so
  each of the two tests of a trial is recorded as a boolean and execution goes on.
\<close>

record trial =
  offset :: u32
  data_test :: bool
  pi_error_expected :: bool
  pi_error_actual :: bool
  pi_test :: bool

definition run_trial ::
  "(u32 \<Rightarrow> u8 list \<times> bool) \<Rightarrow> memory \<Rightarrow> u32 \<Rightarrow> u32 \<Rightarrow> bool \<Rightarrow> Mode \<Rightarrow> u32
     \<Rightarrow> (trial \<times> memory) option" where
  "run_trial hw mem reference_buffer sz cached_memory mode i =
     (let stsw = (mode = Stswi \<or> mode = Stswx);
          filled = fill_u32 mem reference_buffer 8 fill_word
      in case reference_store filled reference_buffer sz cached_memory mode i of
           None \<Rightarrow> None
         | Some mem' \<Rightarrow>
             (let expected = (\<not> cached_memory \<and> \<not> stsw);
                  actual = snd (hw i)
              in Some (\<lparr>offset = i,
                         data_test = (fst (hw i) = read_bytes mem' reference_buffer 32),
                         pi_error_expected = expected,
                         pi_error_actual = actual,
                         pi_test = (actual = expected)\<rparr>, mem')))"

text \<open>
  The loop \<open>for (size_t i = 0; i <= 32 - size; ++i)\<close>. Both sides of the comparison are
  32-bit unsigned, so for a size above 32 the bound wraps; the trials are collected in the
  order in which they run.
\<close>

partial_function (option) sweep_loop ::
  "(u32 \<Rightarrow> u8 list \<times> bool) \<Rightarrow> memory \<Rightarrow> u32 \<Rightarrow> u32 \<Rightarrow> bool \<Rightarrow> Mode \<Rightarrow> u32 \<Rightarrow> trial list
     \<Rightarrow> trial list option" where
  "sweep_loop hw mem reference_buffer sz cached_memory mode i done =
     (if i \<le> 32 - sz then
        (case run_trial hw mem reference_buffer sz cached_memory mode i of
           None \<Rightarrow> None
         | Some (t, mem') \<Rightarrow>
             sweep_loop hw mem' reference_buffer sz cached_memory mode (i + 1) (done @ [t]))
      else Some done)"

declare sweep_loop.simps [code]

definition UnalignedStoresTest ::
  "(u32 \<Rightarrow> u8 list \<times> bool) \<Rightarrow> memory \<Rightarrow> u32 \<Rightarrow> u32 \<Rightarrow> bool \<Rightarrow> Mode \<Rightarrow> trial list option" where
  "UnalignedStoresTest hw mem reference_buffer sz cached_memory mode =
     sweep_loop hw mem reference_buffer sz cached_memory mode 0 []"

section \<open>The quirk as the specification words it\<close>

text \<open>
  Byte \<open>k\<close> (0 to 3) of the big-endian encoding of a 32-bit value, and rounding a byte
  count up to a multiple of 8.
\<close>

definition be_byte :: "u32 \<Rightarrow> nat \<Rightarrow> u8" where
  "be_byte v k = ucast (drop_bit (8 * (3 - k)) v)"

definition round_up8 :: "nat \<Rightarrow> nat" where
  "round_up8 n = ((n + 7) div 8) * 8"

text \<open>
  The specification's description of the quirk path, for a store at offset \<open>address\<close> of
  the buffer \<open>buf\<close>: the value is right-rotated by (misalignment within 4 + size) * 8
  bits and written as consecutive 4-byte words, from \<open>address - address mod 8\<close> on, over
  \<open>address mod 8 + size\<close> bytes rounded up to a multiple of 8.
\<close>

definition tiled_write :: "memory \<Rightarrow> u32 \<Rightarrow> u32 \<Rightarrow> u32 \<Rightarrow> u32 \<Rightarrow> memory" where
  "tiled_write mem buf address val sz =
     (let rotated = word_rotr ((unat (address mod 4) + unat sz) * 8) val;
          start = address - address mod 8;
          covered = round_up8 (unat (address mod 8) + unat sz)
      in fold (\<lambda>k m. stwx m rotated (buf + start + 4 * of_nat k)) [0..<covered div 4] mem)"

section \<open>Auxiliary facts\<close>

subsection \<open>Word stores\<close>

lemma Write_4: "Write mem p v 4 False = stwx mem v p"
  by (simp add: Write_def)

lemma small_word_cases:
  fixes d :: u32
  assumes "unat d < 4"
  shows "d = 0 \<or> d = 1 \<or> d = 2 \<or> d = 3"
proof -
  have k: "unat d = k \<Longrightarrow> d = of_nat k" for k by auto
  have "unat d = 0 \<or> unat d = 1 \<or> unat d = 2 \<or> unat d = 3" using assms by arith
  then show ?thesis using k [of 0] k [of 1] k [of 2] k [of 3] by auto
qed

lemma stwx_near:
  assumes "unat (a - p) < 4"
  shows "stwx mem v p a = be_byte v (unat (a - p))"
proof -
  obtain d where d: "d = a - p" by simp
  then have a: "a = p + d" by simp
  from small_word_cases [OF assms] d have "d = 0 \<or> d = 1 \<or> d = 2 \<or> d = 3" by simp
  then show ?thesis unfolding a
    by (auto simp: stwx_def be_byte_def)
qed

lemma stwx_far:
  assumes "4 \<le> unat (a - p)"
  shows "stwx mem v p a = mem a"
proof -
  obtain d where d: "d = a - p" by simp
  then have a: "a = p + d" by simp
  have "d \<noteq> 0" "d \<noteq> 1" "d \<noteq> 2" "d \<noteq> 3" using assms d by auto
  then show ?thesis unfolding a
    by (auto simp: stwx_def)
qed

lemma unat_sub4_if:
  fixes a p :: u32
  shows "unat (a - (p + 4)) =
         (if 4 \<le> unat (a - p) then unat (a - p) - 4 else unat (a - p) + 2 ^ 32 - 4)"
proof -
  have "a - (p + 4) = (a - p) - 4" by simp
  then have "unat (a - (p + 4)) = unat ((a - p) - 4)" by (simp only:)
  also have "\<dots> = (if 4 \<le> unat (a - p) then unat (a - p) - 4 else unat (a - p) + 2 ^ 32 - 4)"
    by (simp add: unat_sub_if')
  finally show ?thesis .
qed

lemma unat_sub4:
  fixes a p :: u32
  assumes "4 \<le> unat (a - p)"
  shows "unat (a - (p + 4)) = unat (a - p) - 4"
  using assms by (simp only: unat_sub4_if if_True)

lemma fill_u32_far:
  "4 * n \<le> unat (a - p) \<Longrightarrow> fill_u32 mem p n v a = mem a"
proof (induction n arbitrary: mem p)
  case 0
  then show ?case by simp
next
  case (Suc n)
  then have four: "4 \<le> unat (a - p)" by simp
  have "4 * n \<le> unat (a - (p + 4))" using Suc.prems by (simp add: unat_sub4 [OF four])
  then have "fill_u32 (stwx mem v p) (p + 4) n v a = stwx mem v p a" by (rule Suc.IH)
  then show ?case by (simp add: stwx_far [OF four])
qed

lemma fill_u32_near:
  "unat (a - p) < 4 * n \<Longrightarrow> fill_u32 mem p n v a = be_byte v (unat (a - p) mod 4)"
proof (induction n arbitrary: mem p)
  case 0
  then show ?case by simp
next
  case (Suc n)
  show ?case
  proof (cases "unat (a - p) < 4")
    case True
    have near: "stwx mem v p a = be_byte v (unat (a - p) mod 4)"
      using True by (simp add: stwx_near)
    show ?thesis
    proof (cases "unat (a - (p + 4)) < 4 * n")
      case inner: True
      then have "fill_u32 (stwx mem v p) (p + 4) n v a = be_byte v (unat (a - (p + 4)) mod 4)"
        by (rule Suc.IH)
      moreover have "unat (a - (p + 4)) = unat (a - p) + 4 * 1073741823"
        using True by (simp add: unat_sub4_if)
      then have "unat (a - (p + 4)) mod 4 = unat (a - p) mod 4"
        by (simp only: mod_mult_self2)
      ultimately show ?thesis by simp
    next
      case False
      then have "fill_u32 (stwx mem v p) (p + 4) n v a = stwx mem v p a"
        by (intro fill_u32_far) simp
      then show ?thesis using near by simp
    qed
  next
    case False
    then have four: "4 \<le> unat (a - p)" by simp
    have "unat (a - (p + 4)) < 4 * n" using Suc.prems four by (simp add: unat_sub4 [OF four])
    then have "fill_u32 (stwx mem v p) (p + 4) n v a = be_byte v (unat (a - (p + 4)) mod 4)" by (rule Suc.IH)
    moreover have "(unat (a - p) - 4) mod 4 = unat (a - p) mod 4"
      using four by (simp add: le_mod_geq)
    ultimately show ?thesis by (simp add: unat_sub4 [OF four])
  qed
qed

subsection \<open>The loops\<close>

lemma quirk_loop_runs:
  "unat count \<le> 2 ^ 32 - 8 \<Longrightarrow>
   n = (unat count - unat i + 7) div 8 \<Longrightarrow>
   quirk_loop mem ptr m v count i = Some (fill_u32 mem (ptr - m + i) (2 * n) v)"
proof (induction n arbitrary: mem i)
  case 0
  then have "unat count \<le> unat i" by linarith
  then have "\<not> i < count" by (simp add: word_less_nat_alt)
  then show ?case by (subst quirk_loop.simps) simp
next
  case (Suc n)
  then have lt: "unat i < unat count" by (cases "unat i < unat count") auto
  then have "i < count" by (simp add: word_less_nat_alt)
  have u8: "unat (i + 8) = unat i + 8"
    using lt Suc.prems(1) by (simp add: unat_word_ariths)
  have n: "n = (unat count - unat (i + 8) + 7) div 8"
    using Suc.prems(2) lt u8 by linarith
  have "quirk_loop mem ptr m v count i =
        quirk_loop (stwx (stwx mem v (ptr - m + i)) v (ptr - m + i + 4)) ptr m v count (i + 8)"
    using \<open>i < count\<close> by (subst quirk_loop.simps) (simp add: Write_4)
  also have "\<dots> = Some (fill_u32 (stwx (stwx mem v (ptr - m + i)) v (ptr - m + i + 4)) (ptr - m + (i + 8)) (2 * n) v)"
    by (rule Suc.IH [OF Suc.prems(1) n])
  finally show ?case by (simp add: add.assoc)
qed

lemma and_3_mod: "(i :: u32) AND 3 = i mod 4"
proof -
  have "i AND mask 2 = i mod 2 ^ 2"
    by (simp only: take_bit_eq_mod flip: take_bit_eq_mask)
  then show ?thesis by (simp add: mask_eq_exp_minus_1)
qed

lemma and_7_mod: "(i :: u32) AND 7 = i mod 8"
proof -
  have "i AND mask 3 = i mod 2 ^ 3"
    by (simp only: take_bit_eq_mod flip: take_bit_eq_mask)
  then show ?thesis by (simp add: mask_eq_exp_minus_1)
qed

lemma fill_u32_fold:
  "fill_u32 mem p n v = fold (\<lambda>k m. stwx m v (p + 4 * of_nat k)) [0..<n] mem"
proof (induction n arbitrary: mem p)
  case 0
  then show ?case by simp
next
  case (Suc n)
  have "[0..<Suc n] = 0 # map Suc [0..<n]"
    by (simp add: upt_conv_Cons map_Suc_upt del: upt_Suc)
  then have "fold (\<lambda>k m. stwx m v (p + 4 * of_nat k)) [0..<Suc n] mem =
        fold (\<lambda>k m. stwx m v (p + 4 + 4 * of_nat k)) [0..<n] (stwx mem v p)"
    by (simp add: fold_map comp_def algebra_simps del: upt_Suc)
  then show ?case using Suc.IH by simp
qed

lemma unat_mod8: "unat ((i :: u32) mod 8) < 8"
  by (simp add: unat_mod)
lemma unat_mod4: "unat ((i :: u32) mod 4) < 4"
  by (simp add: unat_mod)

lemma quirk_branch:
  assumes "sz \<in> {1, 2, 4}"
  shows "quirk_loop mem ptr (i AND 7) v ((i AND 7) + sz) 0 =
         Some (fill_u32 mem (ptr - i mod 8) (round_up8 (unat (i mod 8) + unat sz) div 4) v)"
proof -
  have sz: "unat sz \<le> 4" using assms by auto
  have c: "unat (i mod 8 + sz) = unat (i mod 8) + unat sz"
    using sz unat_mod8 [of i] by (simp add: unat_word_ariths)
  have "unat (i mod 8 + sz) \<le> 2 ^ 32 - 8"
    using sz unat_mod8 [of i] c by simp
  from quirk_loop_runs [OF this refl, where i = 0 and mem = mem and ptr = ptr and m = "i mod 8" and v = v]
  show ?thesis
    by (simp add: and_7_mod c round_up8_def) 
qed

lemma rotate_amount:
  assumes "sz \<in> {1, 2, 4 :: u32}"
  shows "RotateRight v (((i AND 3) + sz) * 8) = word_rotr ((unat (i mod 4) + unat sz) * 8) v"
proof -
  have sz: "unat sz \<le> 4" using assms by auto
  have "unat ((i mod 4 + sz) * 8) = (unat (i mod 4) + unat sz) * 8"
    using sz unat_mod4 [of i] by (simp add: unat_word_ariths)
  then show ?thesis unfolding RotateRight_def and_3_mod by (simp only:)
qed

subsection \<open>Bytes of the rotated value\<close>

lemma tile_index:
  fixes m j s b :: nat
  assumes "m < 4" and "j < s" and "s \<le> 4" and "b < (8 :: nat)"
  shows "(8 * (3 - (m + j) mod 4) + b + (m + s) * 8) mod 32 = 8 * (s - 1 - j) + b"
proof -
  define k where "k = (m + j) mod 4"
  define q where "q = (m + j) div 4"
  have k: "k < 4" by (simp add: k_def)
  have mj: "m + j = 4 * q + k" by (simp add: k_def q_def)
  define t where "t = s - 1 - j"
  define u where "u = 3 - k"
  have t: "s = t + 1 + j" using assms(2) by (simp add: t_def)
  have u: "k + u = 3" using k by (simp add: u_def)
  have "8 * u + b + (m + s) * 8 = (8 * t + b) + 32 * (q + 1)"
  proof -
    have "8 * u + 8 * k = 24" using u by simp
    moreover have "8 * m + 8 * j = 32 * q + 8 * k" using mj by simp
    moreover have "8 * s = 8 * t + 8 + 8 * j" using t by simp
    ultimately show ?thesis by (simp add: algebra_simps)
  qed
  then have eq: "8 * (3 - k) + b + (m + s) * 8 = (8 * (s - 1 - j) + b) + 32 * (q + 1)"
    by (simp only: t_def u_def)
  have small: "8 * (s - 1 - j) + b < 32" using assms by linarith
  have "(8 * (3 - k) + b + (m + s) * 8) mod 32 = (8 * (s - 1 - j) + b) mod 32"
    by (simp only: eq mod_mult_self2)
  then show ?thesis using small by (simp add: k_def)
qed

lemma be_byte_rotr:
  fixes m j s :: nat
  assumes "m < 4" and "j < s" and "s \<le> 4"
  shows "be_byte (word_rotr ((m + s) * 8) v) ((m + j) mod 4) = be_byte v (4 - s + j)"
proof (rule bit_word_eqI)
  fix b
  assume "b < LENGTH(8)"
  then have b: "b < 8" by simp
  have lt: "8 * (3 - (m + j) mod 4) + b < 32" using b by simp
  have e: "3 - (4 - s + j) = s - 1 - j" using assms by linarith
  have "bit (be_byte (word_rotr ((m + s) * 8) v) ((m + j) mod 4)) b
        = bit v ((8 * (3 - (m + j) mod 4) + b + (m + s) * 8) mod 32)"
    using b lt by (simp add: be_byte_def bit_ucast_iff bit_drop_bit_eq bit_word_rotr_iff)
  also have "\<dots> = bit v (8 * (s - 1 - j) + b)"
    by (simp only: tile_index [OF assms(1,2,3) b])
  also have "\<dots> = bit (be_byte v (4 - s + j)) b"
    using b by (simp add: be_byte_def bit_ucast_iff bit_drop_bit_eq e)
  finally show "bit (be_byte (word_rotr ((m + s) * 8) v) ((m + j) mod 4)) b = bit (be_byte v (4 - s + j)) b" .
qed

lemma quirk_path_fill:
  assumes "sz \<in> {1, 2, 4}" and "i mod 4 \<noteq> 0 \<or> sz < 4"
  shows "WriteWithSimulatedQuirks mem i ptr val sz =
         Some (fill_u32 mem (ptr - i mod 8) (round_up8 (unat (i mod 8) + unat sz) div 4)
                 (word_rotr ((unat (i mod 4) + unat sz) * 8) val))"
proof -
  have "WriteWithSimulatedQuirks mem i ptr val sz =
        quirk_loop mem ptr (i AND 7)
          (RotateRight val (((i AND 3) + sz) * 8)) ((i AND 7) + sz) 0"
    unfolding WriteWithSimulatedQuirks_def Let_def and_3_mod using assms(2) by (simp only: if_True)
  then show ?thesis
    by (simp only: quirk_branch [OF assms(1)] rotate_amount [OF assms(1)])
qed

lemma fast_path:
  assumes "\<not> (i mod 4 \<noteq> 0 \<or> sz < 4)"
  shows "WriteWithSimulatedQuirks mem i ptr val sz = Some (Write mem ptr val sz False)"
  unfolding WriteWithSimulatedQuirks_def Let_def and_3_mod using assms by (simp only: if_False)

lemma round_up8_covers: "n \<le> 4 * (round_up8 n div 4)"
proof -
  have "round_up8 n = 4 * (2 * ((n + 7) div 8))" by (simp add: round_up8_def)
  then have "4 * (round_up8 n div 4) = round_up8 n" by simp
  moreover have "n \<le> round_up8 n" unfolding round_up8_def by presburger
  ultimately show ?thesis by simp
qed

lemma unat_of_nat_small: "j < 4 \<Longrightarrow> unat (of_nat j :: u32) = j"
  by (simp add: unat_of_nat)

lemma Write_bytes:
  assumes "sz \<in> {1, 2, 4}" and "j < unat sz"
  shows "Write mem p val sz False (p + of_nat j) = be_byte val (4 - unat sz + j)"
proof -
  consider "sz = 1" | "sz = 2" | "sz = 4" using assms(1) by auto
  then show ?thesis
  proof cases
    case 1
    then have "j = 0" using assms(2) by simp
    then show ?thesis using 1 by (simp add: Write_def stbx_def be_byte_def)
  next
    case 2
    then have "j = 0 \<or> j = 1" using assms(2) by auto
    then show ?thesis using 2 by (auto simp: Write_def sthx_def be_byte_def)
  next
    case 3
    then have j: "j < 4" using assms(2) by simp
    have "unat (p + of_nat j - p) = j" using j by (simp add: unat_of_nat_small)
    then show ?thesis using 3 j stwx_near [of "p + of_nat j" p mem val]
      by (simp add: Write_4)
  qed
qed

lemma quirk_target_byte:
  assumes "sz \<in> {1, 2, 4}" and "j < unat sz" and "i mod 4 \<noteq> 0 \<or> sz < 4"
  shows "fill_u32 mem (buf + i - i mod 8) (round_up8 (unat (i mod 8) + unat sz) div 4)
           (word_rotr ((unat (i mod 4) + unat sz) * 8) val) (buf + i + of_nat j)
         = be_byte val (4 - unat sz + j)"
proof -
  let ?r = "unat (i mod 8)"
  let ?m = "unat (i mod 4)"
  have sz: "unat sz \<le> 4" using assms(1) by auto
  have j: "j < 4" using sz assms(2) by simp
  have r: "?r < 8" by (rule unat_mod8)
  have m: "?m < 4" by (rule unat_mod4)
  have rm: "?r mod 4 = ?m"
    by (simp add: unat_mod mod_mod_cancel)
  have "buf + i + of_nat j - (buf + i - i mod 8) = i mod 8 + of_nat j" by simp
  moreover have "unat (i mod 8 + of_nat j :: u32) = ?r + j"
    using r j by (simp add: unat_word_ariths unat_of_nat_small)
  ultimately have d: "unat (buf + i + of_nat j - (buf + i - i mod 8)) = ?r + j"
    by (simp only:)
  have "?r + j < ?r + unat sz" using assms(2) by simp
  also have "\<dots> \<le> 4 * (round_up8 (?r + unat sz) div 4)" by (rule round_up8_covers)
  finally have inside: "unat (buf + i + of_nat j - (buf + i - i mod 8))
                        < 4 * (round_up8 (?r + unat sz) div 4)"
    by (simp only: d)
  have "(?r + j) mod 4 = (?m + j) mod 4"
    using rm by (metis mod_add_left_eq)
  then show ?thesis
    using fill_u32_near [OF inside] be_byte_rotr [OF m assms(2) sz, of val]
    by (simp only: d)
qed

subsection \<open>The window of the reference buffer\<close>

lemma round_up8_div4: "4 * (round_up8 n div 4) = round_up8 n"
proof -
  have "round_up8 n = 4 * (2 * ((n + 7) div 8))" by (simp add: round_up8_def)
  then show ?thesis by simp
qed

lemma tiles_in_window:
  fixes I S :: nat
  assumes "I + S \<le> 32"
  shows "I - I mod 8 + round_up8 (I mod 8 + S) \<le> 32"
proof -
  define q where "q = I div 8"
  define r where "r = I mod 8"
  define c where "c = (r + S + 7) div 8"
  have I: "I = 8 * q + r" by (simp add: q_def r_def)
  have "8 * c \<le> r + S + 7" by (simp add: c_def)
  then have "8 * q + 8 * c \<le> 39" using I assms by linarith
  then have "q + c \<le> 4" by linarith
  then have "8 * q + 8 * c \<le> 32" by linarith
  moreover have "I - I mod 8 = 8 * q" using I by (simp add: r_def)
  moreover have "round_up8 (I mod 8 + S) = 8 * c" by (simp add: round_up8_def c_def r_def)
  ultimately show ?thesis by (simp only:)
qed

lemma unat_bound:
  fixes i sz :: u32
  assumes "sz \<in> {1, 2, 4}" and "i \<le> 32 - sz"
  shows "unat i + unat sz \<le> 32"
proof -
  have "unat (32 - sz) = 32 - unat sz" using assms(1) by auto
  then have "unat i \<le> 32 - unat sz" using assms(2) by (simp add: word_le_nat_alt)
  moreover have "unat sz \<le> 4" using assms(1) by auto
  ultimately show ?thesis by simp
qed

lemma unat_offset_sub:
  fixes d s :: u32
  assumes "unat s \<le> unat d"
  shows "unat (d - s) = unat d - unat s"
  using assms by (simp add: unat_sub word_le_nat_alt)

lemma unat_round_down8: "unat ((i :: u32) - i mod 8) = unat i - unat i mod 8"
proof -
  have "unat (i mod 8) \<le> unat i" by (simp add: unat_mod)
  then have "unat (i - i mod 8) = unat i - unat (i mod 8)" by (rule unat_offset_sub)
  then show ?thesis by (simp add: unat_mod)
qed

lemma round_down8_aligned: "((i :: u32) - i mod 8) mod 8 = 0"
proof -
  have "unat ((i - i mod 8) mod 8) = (unat i - unat i mod 8) mod 8"
    by (simp add: unat_mod unat_round_down8)
  also have "\<dots> = 0" by (simp add: minus_mod_eq_mult_div)
  finally show ?thesis by (simp add: unat_eq_zero)
qed

lemma quirk_tiles_frame:
  assumes "unat i + unat sz \<le> 32" and "32 \<le> unat (a - buf)"
  shows "fill_u32 mem (buf + i - i mod 8) (round_up8 (unat (i mod 8) + unat sz) div 4) v a = mem a"
proof (rule fill_u32_far)
  have w: "unat i - unat i mod 8 + round_up8 (unat i mod 8 + unat sz) \<le> 32"
    by (rule tiles_in_window [OF assms(1)])
  have s: "unat (i - i mod 8) = unat i - unat i mod 8" by (rule unat_round_down8)
  have "a - (buf + i - i mod 8) = (a - buf) - (i - i mod 8)" by simp
  moreover have "unat ((a - buf) - (i - i mod 8)) = unat (a - buf) - unat (i - i mod 8)"
    using w assms(2) s by (intro unat_offset_sub) linarith
  ultimately have "unat (a - (buf + i - i mod 8)) = unat (a - buf) - (unat i - unat i mod 8)"
    using s by (simp only:)
  then show "4 * (round_up8 (unat (i mod 8) + unat sz) div 4) \<le> unat (a - (buf + i - i mod 8))"
    using w assms(2) by (simp add: round_up8_div4 unat_mod)
qed

subsection \<open>The reference model returns\<close>

lemma WriteWithSimulatedQuirks_returns:
  assumes "unat sz \<le> 32"
  shows "\<exists>m. WriteWithSimulatedQuirks mem i ptr val sz = Some m"
proof -
  have "unat (i mod 8 + sz) \<le> unat (i mod 8) + unat sz"
    by (simp add: unat_word_ariths)
  then have "unat ((i AND 7) + sz) \<le> 2 ^ 32 - 8"
    using assms unat_mod8 [of i] by (simp add: and_7_mod)
  from quirk_loop_runs [OF this refl] show ?thesis
    by (simp add: WriteWithSimulatedQuirks_def Let_def)
qed

lemma length_STSW_VALUES: "length STSW_VALUES = 32"
  by (simp add: STSW_VALUES_def)

lemma reference_store_returns:
  assumes "unat sz \<le> 32"
  shows "\<exists>m. reference_store mem rb sz cached mode i = Some m"
  using assms WriteWithSimulatedQuirks_returns [OF assms]
  by (simp add: reference_store_def WriteStswSimulated_def length_STSW_VALUES)

lemma run_trial_returns:
  assumes "unat sz \<le> 32"
  shows "\<exists>t m. run_trial hw mem rb sz cached mode i = Some (t, m) \<and> offset t = i
           \<and> pi_error_actual t = snd (hw i)"
proof -
  obtain m where "reference_store (fill_u32 mem rb 8 fill_word) rb sz cached mode i = Some m"
    using reference_store_returns [OF assms] by blast
  then show ?thesis by (simp add: run_trial_def Let_def)
qed

lemma fill_u32_two: "fill_u32 mem p 2 v = stwx (stwx mem v p) v (p + 4)"
  by (simp add: numeral_2_eq_2)

lemma aligned_narrow_count:
  fixes i sz :: u32
  assumes "sz \<in> {1, 2}" and "i mod 4 = 0"
  shows "round_up8 (unat (i mod 8) + unat sz) div 4 = 2"
proof -
  have "unat (i mod 8) mod 4 = unat (i mod 4)" by (simp add: unat_mod mod_mod_cancel)
  then have "unat (i mod 8) mod 4 = 0" using assms(2) by simp
  moreover have "unat (i mod 8) < 8" by (rule unat_mod8)
  ultimately have r: "unat (i mod 8) = 0 \<or> unat (i mod 8) = 4" by presburger
  have "unat sz = 1 \<or> unat sz = 2" using assms(1) by auto
  with r show ?thesis by (auto simp: round_up8_def)
qed

subsection \<open>The string stores\<close>

lemma and_31_mod: "(i :: u32) AND 31 = i mod 32"
proof -
  have "i AND mask 5 = i mod 2 ^ 5"
    by (simp only: take_bit_eq_mod flip: take_bit_eq_mask)
  then show ?thesis by (simp add: mask_eq_exp_minus_1)
qed

lemma stswi_table_upt: "stswi_table = [0..<32]"
  unfolding stswi_table_def by code_simp

lemma stswi_table_nth: "k < 32 \<Longrightarrow> stswi_table ! k = k"
  by (simp add: stswi_table_upt)

lemma unat_and_31: "unat ((n :: u32) AND 31) = unat n mod 32"
  by (simp add: and_31_mod unat_mod)

lemma WriteStswi_dispatch:
  "WriteStswi mem out_ptr in_bytes out_size in_size =
   WriteStswiImpl (unat out_size mod 32) mem out_ptr in_bytes in_size"
  by (simp add: WriteStswi_def unat_and_31 stswi_table_nth)

lemma unat_sub1:
  fixes a p :: u32
  assumes "1 \<le> unat (a - p)"
  shows "unat (a - (p + 1)) = unat (a - p) - 1"
proof -
  have "a - (p + 1) = (a - p) - 1" by simp
  then have "unat (a - (p + 1)) = unat ((a - p) - 1)" by (simp only:)
  also have "\<dots> = unat (a - p) - 1" using assms by (simp add: unat_sub_if')
  finally show ?thesis .
qed

lemma copy_bytes_far:
  "length bs \<le> unat (a - p) \<Longrightarrow> copy_bytes mem p bs a = mem a"
proof (induction bs arbitrary: mem p)
  case Nil
  then show ?case by simp
next
  case (Cons b bs)
  then have one: "1 \<le> unat (a - p)" by simp
  then have "a - p \<noteq> 0" by auto
  then have ne: "a \<noteq> p" by simp
  have "length bs \<le> unat (a - (p + 1))" using Cons.prems by (simp add: unat_sub1 [OF one])
  then have "copy_bytes (mem(p := b)) (p + 1) bs a = (mem(p := b)) a" by (rule Cons.IH)
  then show ?case using ne by simp
qed

lemma copy_bytes_near:
  "k < length bs \<Longrightarrow> length bs \<le> 2 ^ 32 \<Longrightarrow> copy_bytes mem p bs (p + of_nat k) = bs ! k"
proof (induction bs arbitrary: mem p k)
  case Nil
  then show ?case by simp
next
  case (Cons b bs)
  show ?case
  proof (cases k)
    case 0
    have "unat (p - (p + 1)) = 2 ^ 32 - 1"
    proof -
      have "p - (p + 1) = (-1 :: u32)" by simp
      then show ?thesis by (simp add: unsigned_minus_1_eq_mask mask_eq_exp_minus_1)
    qed
    then have "length bs \<le> unat (p - (p + 1))" using Cons.prems(2) by simp
    then have "copy_bytes (mem(p := b)) (p + 1) bs p = (mem(p := b)) p" by (rule copy_bytes_far)
    then show ?thesis using 0 by simp
  next
    case (Suc k')
    then have "k' < length bs" "length bs \<le> 2 ^ 32" using Cons.prems by simp_all
    then have "copy_bytes (mem(p := b)) (p + 1) bs (p + 1 + of_nat k') = bs ! k'"
      by (rule Cons.IH)
    then show ?thesis using Suc by (simp add: add.assoc)
  qed
qed

lemma read_bytes_copy:
  assumes "n \<le> length bs" and "length bs \<le> 2 ^ 32"
  shows "read_bytes (copy_bytes mem p (take n bs)) p n = take n bs"
proof (rule nth_equalityI)
  show "length (read_bytes (copy_bytes mem p (take n bs)) p n) = length (take n bs)"
    using assms(1) by (simp add: read_bytes_def)
next
  fix k
  assume "k < length (read_bytes (copy_bytes mem p (take n bs)) p n)"
  then have k: "k < n" by (simp add: read_bytes_def)
  then have "k < length (take n bs)" "length (take n bs) \<le> 2 ^ 32" using assms by simp_all
  then have "copy_bytes mem p (take n bs) (p + of_nat k) = take n bs ! k"
    by (rule copy_bytes_near)
  then show "read_bytes (copy_bytes mem p (take n bs)) p n ! k = take n bs ! k"
    using k by (simp add: read_bytes_def)
qed

subsection \<open>The sweep loop\<close>

lemma unat_loop_bound:
  fixes sz :: u32
  assumes "unat sz \<le> 32"
  shows "unat (32 - sz) = 32 - unat sz"
proof -
  have "unat (32 - sz) = unat (32 :: u32) - unat sz"
    using assms by (intro unat_offset_sub) simp
  then show ?thesis by simp
qed

subsection \<open>The buffer of a trial\<close>

lemma unat_window_offset: "k < 32 \<Longrightarrow> unat (of_nat k :: u32) = k"
  by (simp add: unat_of_nat)

lemma filled_window_byte:
  assumes "k < 32"
  shows "fill_u32 mem rb 8 fill_word (rb + of_nat k) = be_byte fill_word (k mod 4)"
  using fill_u32_near [of "rb + of_nat k" rb 8 mem fill_word] assms
  by (simp add: unat_window_offset)

lemma swap_halfword_tile_bytes:
  "read_bytes (stwx (stwx (fill_u32 mem rb 8 fill_word) 0x34785612 rb) 0x34785612 (rb + 4)) rb 32 =
     [0x34, 0x78, 0x56, 0x12, 0x34, 0x78, 0x56, 0x12, 1, 2, 3, 4, 1, 2, 3, 4,
      1, 2, 3, 4, 1, 2, 3, 4, 1, 2, 3, 4, 1, 2, 3, 4]"
proof -
  let ?f = "fill_u32 mem rb 8 fill_word"
  let ?m = "fill_u32 ?f rb 2 0x34785612"
  let ?g = "\<lambda>k. if k < 8 then be_byte 0x34785612 (k mod 4) else be_byte fill_word (k mod 4)"
  have byte: "?m (rb + of_nat k) = ?g k" if "k < 32" for k
  proof (cases "k < 8")
    case True
    then show ?thesis
      using fill_u32_near [of "rb + of_nat k" rb 2 ?f "0x34785612"] that
      by (simp add: unat_window_offset)
  next
    case False
    then have "?m (rb + of_nat k) = ?f (rb + of_nat k)"
      using that by (intro fill_u32_far) (simp add: unat_window_offset)
    then show ?thesis using False filled_window_byte [OF that] by simp
  qed
  have "read_bytes ?m rb 32 = map ?g [0..<32]"
    unfolding read_bytes_def by (rule map_cong [OF refl]) (simp add: byte)
  also have "map ?g [0..<32] =
     [0x34, 0x78, 0x56, 0x12, 0x34, 0x78, 0x56, 0x12, 1, 2, 3, 4, 1, 2, 3, 4,
      1, 2, 3, 4, 1, 2, 3, 4, 1, 2, 3, 4, 1, 2, 3, 4]"
    by code_simp
  finally show ?thesis by (simp only: fill_u32_two)
qed

subsection \<open>Each trial's report\<close>

lemma stwx_cong: "m1 a = m2 a \<Longrightarrow> stwx m1 v p a = stwx m2 v p a"
  by (simp add: stwx_def)

lemma Write_cong: "m1 a = m2 a \<Longrightarrow> Write m1 p v sz sw a = Write m2 p v sz sw a"
  by (auto simp: Write_def stwx_def stwbrx_def sthx_def sthbrx_def stbx_def)

lemma fill_u32_cong: "m1 a = m2 a \<Longrightarrow> fill_u32 m1 p n v a = fill_u32 m2 p n v a"
proof (induction n arbitrary: m1 m2 p)
  case 0
  then show ?case by simp
next
  case (Suc n)
  from Suc.prems have "stwx m1 v p a = stwx m2 v p a" by (rule stwx_cong)
  then have "fill_u32 (stwx m1 v p) (p + 4) n v a = fill_u32 (stwx m2 v p) (p + 4) n v a"
    by (rule Suc.IH)
  then show ?case by (simp only: fill_u32.simps)
qed

lemma copy_bytes_cong: "m1 a = m2 a \<Longrightarrow> copy_bytes m1 p bs a = copy_bytes m2 p bs a"
proof (induction bs arbitrary: m1 m2 p)
  case Nil
  then show ?case by simp
next
  case (Cons b bs)
  have "(m1(p := b)) a = (m2(p := b)) a" using Cons.prems by simp
  then have "copy_bytes (m1(p := b)) (p + 1) bs a = copy_bytes (m2(p := b)) (p + 1) bs a"
    by (rule Cons.IH)
  then show ?case by (simp only: copy_bytes.simps)
qed

lemma WriteWithSimulatedQuirks_cong:
  assumes "unat sz \<le> 32" and "m1 a = m2 a"
  shows "\<exists>r1 r2. WriteWithSimulatedQuirks m1 i ptr val sz = Some r1 \<and>
                 WriteWithSimulatedQuirks m2 i ptr val sz = Some r2 \<and> r1 a = r2 a"
proof (cases "(i AND 3) \<noteq> 0 \<or> sz < 4")
  case True
  let ?v = "RotateRight val (((i AND 3) + sz) * 8)"
  let ?n = "2 * ((unat ((i AND 7) + sz) - unat (0 :: u32) + 7) div 8)"
  have "unat (i mod 8 + sz) \<le> unat (i mod 8) + unat sz"
    by (simp add: unat_word_ariths)
  then have c: "unat ((i AND 7) + sz) \<le> 2 ^ 32 - 8"
    using assms(1) unat_mod8 [of i] by (simp add: and_7_mod)
  have w: "WriteWithSimulatedQuirks m i ptr val sz =
           Some (fill_u32 m (ptr - (i AND 7) + 0) ?n ?v)" for m
  proof -
    have "WriteWithSimulatedQuirks m i ptr val sz =
          quirk_loop m ptr (i AND 7) ?v ((i AND 7) + sz) 0"
      unfolding WriteWithSimulatedQuirks_def Let_def using True by (simp only: if_True)
    then show ?thesis by (simp only: quirk_loop_runs [OF c refl])
  qed
  have "fill_u32 m1 (ptr - (i AND 7) + 0) ?n ?v a = fill_u32 m2 (ptr - (i AND 7) + 0) ?n ?v a"
    using assms(2) by (rule fill_u32_cong)
  then show ?thesis using w [of m1] w [of m2] by blast
next
  case False
  have w: "WriteWithSimulatedQuirks m i ptr val sz = Some (Write m ptr val sz False)" for m
    unfolding WriteWithSimulatedQuirks_def Let_def using False by (simp only: if_False)
  have "Write m1 ptr val sz False a = Write m2 ptr val sz False a"
    using assms(2) by (rule Write_cong)
  then show ?thesis using w [of m1] w [of m2] by blast
qed

lemma reference_store_cong:
  assumes "unat sz \<le> 32" and "m1 a = m2 a"
  shows "\<exists>r1 r2. reference_store m1 rb sz cached mode i = Some r1 \<and>
                 reference_store m2 rb sz cached mode i = Some r2 \<and> r1 a = r2 a"
proof -
  consider (stsw) "mode = Stswi \<or> mode = Stswx"
    | (cached) "\<not> (mode = Stswi \<or> mode = Stswx)" "cached"
    | (quirk) "\<not> (mode = Stswi \<or> mode = Stswx)" "\<not> cached"
    by blast
  then show ?thesis
  proof cases
    case stsw
    have w: "reference_store m rb sz cached mode i =
             Some (copy_bytes m (rb + i) (take (unat sz) STSW_VALUES))" for m
      using stsw assms(1)
      by (auto simp: reference_store_def WriteStswSimulated_def length_STSW_VALUES)
    have "copy_bytes m1 (rb + i) (take (unat sz) STSW_VALUES) a =
          copy_bytes m2 (rb + i) (take (unat sz) STSW_VALUES) a"
      using assms(2) by (rule copy_bytes_cong)
    then show ?thesis using w [of m1] w [of m2] by blast
  next
    case cached
    have w: "reference_store m rb sz cached mode i =
             Some (Write m (rb + i) (swapped_word mode sz) sz False)" for m
      using cached by (simp add: reference_store_def)
    have "Write m1 (rb + i) (swapped_word mode sz) sz False a =
          Write m2 (rb + i) (swapped_word mode sz) sz False a"
      using assms(2) by (rule Write_cong)
    then show ?thesis using w [of m1] w [of m2] by blast
  next
    case quirk
    have w: "reference_store m rb sz cached mode i =
             WriteWithSimulatedQuirks m i (rb + i) (swapped_word mode sz) sz" for m
      using quirk by (simp add: reference_store_def)
    show ?thesis
      using WriteWithSimulatedQuirks_cong
        [where ?m1.0 = m1 and ?m2.0 = m2 and a = a, OF assms,
         of i "rb + i" "swapped_word mode sz"]
      by (simp only: w)
  qed
qed

lemma trial_buffer_independent:
  assumes "unat sz \<le> 32"
  shows "\<exists>r1 r2. reference_store (fill_u32 m1 rb 8 fill_word) rb sz cached mode i = Some r1 \<and>
                 reference_store (fill_u32 m2 rb 8 fill_word) rb sz cached mode i = Some r2 \<and>
                 read_bytes r1 rb 32 = read_bytes r2 rb 32"
proof -
  let ?f1 = "fill_u32 m1 rb 8 fill_word"
  let ?f2 = "fill_u32 m2 rb 8 fill_word"
  obtain r1 where r1: "reference_store ?f1 rb sz cached mode i = Some r1"
    using reference_store_returns [OF assms] by blast
  obtain r2 where r2: "reference_store ?f2 rb sz cached mode i = Some r2"
    using reference_store_returns [OF assms] by blast
  have "r1 (rb + of_nat k) = r2 (rb + of_nat k)" if "k < 32" for k
  proof -
    have "?f1 (rb + of_nat k) = ?f2 (rb + of_nat k)"
      by (simp add: filled_window_byte [OF that])
    from reference_store_cong
      [where ?m1.0 = ?f1 and ?m2.0 = ?f2 and a = "rb + of_nat k", OF assms this,
       of rb cached mode i] r1 r2
    show ?thesis by simp
  qed
  then have "read_bytes r1 rb 32 = read_bytes r2 rb 32"
    unfolding read_bytes_def by (intro map_cong [OF refl]) simp
  with r1 r2 show ?thesis by blast
qed


lemma run_trial_report:
  assumes "unat sz \<le> 32"
  shows "\<exists>m. run_trial hw mem rb sz cached mode i =
           Some (\<lparr>offset = i,
                  data_test = (Some (fst (hw i)) =
                    map_option (\<lambda>m'. read_bytes m' rb 32)
                      (reference_store (fill_u32 mem0 rb 8 fill_word) rb sz cached mode i)),
                  pi_error_expected = (\<not> cached \<and> (mode = Regular \<or> mode = Swap)),
                  pi_error_actual = snd (hw i),
                  pi_test = (snd (hw i) = (\<not> cached \<and> (mode = Regular \<or> mode = Swap)))\<rparr>, m)"
proof -
  obtain r1 r2 where r1: "reference_store (fill_u32 mem rb 8 fill_word) rb sz cached mode i = Some r1"
    and r2: "reference_store (fill_u32 mem0 rb 8 fill_word) rb sz cached mode i = Some r2"
    and eq: "read_bytes r1 rb 32 = read_bytes r2 rb 32"
    using trial_buffer_independent [OF assms, of mem rb cached mode i mem0] by blast
  have stsw: "(\<not> (mode = Stswi \<or> mode = Stswx)) = (mode = Regular \<or> mode = Swap)"
    by (cases mode) simp_all
  have "run_trial hw mem rb sz cached mode i =
          Some (\<lparr>offset = i,
                  data_test = (fst (hw i) = read_bytes r1 rb 32),
                  pi_error_expected = (\<not> cached \<and> \<not> (mode = Stswi \<or> mode = Stswx)),
                  pi_error_actual = snd (hw i),
                  pi_test = (snd (hw i) = (\<not> cached \<and> \<not> (mode = Stswi \<or> mode = Stswx)))\<rparr>, r1)"
    unfolding run_trial_def Let_def r1 by simp
  then show ?thesis unfolding r2 eq stsw by simp
qed

lemma sweep_loop_reports:
  assumes "unat sz \<le> 32"
  shows "unat i \<le> 33 - unat sz \<Longrightarrow> n = 33 - unat sz - unat i \<Longrightarrow>
         sweep_loop hw mem rb sz cached mode i done =
           Some (done @ map (\<lambda>k.
             \<lparr>offset = of_nat k,
              data_test = (Some (fst (hw (of_nat k))) =
                map_option (\<lambda>m'. read_bytes m' rb 32)
                  (reference_store (fill_u32 mem0 rb 8 fill_word) rb sz cached mode (of_nat k))),
              pi_error_expected = (\<not> cached \<and> (mode = Regular \<or> mode = Swap)),
              pi_error_actual = snd (hw (of_nat k)),
              pi_test = (snd (hw (of_nat k)) = (\<not> cached \<and> (mode = Regular \<or> mode = Swap)))\<rparr>)
             [unat i..<33 - unat sz])"
proof (induction n arbitrary: i mem "done")
  case 0
  then have e: "unat i = 33 - unat sz" by simp
  then have "\<not> unat i \<le> unat (32 - sz)" using assms by (simp add: unat_loop_bound)
  then have "\<not> i \<le> 32 - sz" by (simp add: word_le_nat_alt)
  then have "sweep_loop hw mem rb sz cached mode i done = Some done"
    by (subst sweep_loop.simps) simp
  then show ?case using e by simp
next
  case (Suc n)
  let ?F = "\<lambda>k.
             \<lparr>offset = of_nat k,
              data_test = (Some (fst (hw (of_nat k))) =
                map_option (\<lambda>m'. read_bytes m' rb 32)
                  (reference_store (fill_u32 mem0 rb 8 fill_word) rb sz cached mode (of_nat k))),
              pi_error_expected = (\<not> cached \<and> (mode = Regular \<or> mode = Swap)),
              pi_error_actual = snd (hw (of_nat k)),
              pi_test = (snd (hw (of_nat k)) = (\<not> cached \<and> (mode = Regular \<or> mode = Swap)))\<rparr>"
  from Suc.prems have lt: "unat i < 33 - unat sz" by simp
  then have "unat i \<le> unat (32 - sz)" using assms by (simp add: unat_loop_bound)
  then have le: "i \<le> 32 - sz" by (simp add: word_le_nat_alt)
  obtain m where "run_trial hw mem rb sz cached mode i =
           Some (\<lparr>offset = i,
                  data_test = (Some (fst (hw i)) =
                    map_option (\<lambda>m'. read_bytes m' rb 32)
                      (reference_store (fill_u32 mem0 rb 8 fill_word) rb sz cached mode i)),
                  pi_error_expected = (\<not> cached \<and> (mode = Regular \<or> mode = Swap)),
                  pi_error_actual = snd (hw i),
                  pi_test = (snd (hw i) = (\<not> cached \<and> (mode = Regular \<or> mode = Swap)))\<rparr>, m)"
    using run_trial_report [OF assms] by blast
  then have t: "run_trial hw mem rb sz cached mode i = Some (?F (unat i), m)" by simp
  have u1: "unat (i + 1) = unat i + 1" using lt by (simp add: unat_word_ariths)
  have "unat (i + 1) \<le> 33 - unat sz" "n = 33 - unat sz - unat (i + 1)"
    using lt Suc.prems(2) u1 by simp_all
  from Suc.IH [OF this]
  have rest: "sweep_loop hw m rb sz cached mode (i + 1) (done @ [?F (unat i)]) =
              Some ((done @ [?F (unat i)]) @ map ?F [unat (i + 1)..<33 - unat sz])" .
  have step: "sweep_loop hw mem rb sz cached mode i done =
              sweep_loop hw m rb sz cached mode (i + 1) (done @ [?F (unat i)])"
    using le by (subst sweep_loop.simps) (simp only: t if_True option.case prod.case)
  have up: "[unat i..<33 - unat sz] = unat i # [unat (i + 1)..<33 - unat sz]"
    using lt u1 by (simp add: upt_conv_Cons)
  show ?case unfolding step rest up by simp
qed

section \<open>The claims\<close>

text \<open>
  C1. For a Regular or Swap store (size 1, 2 or 4) on memory that is not cache-backed,
  at an offset that is not 4-byte-aligned or with a size below 4, the reference model
  \<open>WriteWithSimulatedQuirks\<close> returns, and its result is the specification's
  rotate-then-tile write: the value rotated right by (offset mod 4 + size) * 8 bits,
  stored as consecutive 4-byte words from offset - offset mod 8 on (a multiple of 8, so
  every word is aligned within the buffer), over offset mod 8 + size bytes rounded up to
  a multiple of 8.
\<close>

theorem quirk_path_is_rotate_then_tile:
  assumes "sz \<in> {1, 2, 4}" and "i mod 4 \<noteq> 0 \<or> sz < 4"
  shows "WriteWithSimulatedQuirks mem i (buf + i) val sz = Some (tiled_write mem buf i val sz)
         \<and> (i - i mod 8) mod 8 = 0"
proof -
  have "WriteWithSimulatedQuirks mem i (buf + i) val sz =
        quirk_loop mem (buf + i) (i AND 7)
          (RotateRight val (((i AND 3) + sz) * 8)) ((i AND 7) + sz) 0"
    unfolding WriteWithSimulatedQuirks_def Let_def and_3_mod using assms(2) by (simp only: if_True)
  also have "\<dots> = Some (fill_u32 mem (buf + i - i mod 8)
                       (round_up8 (unat (i mod 8) + unat sz) div 4)
                       (word_rotr ((unat (i mod 4) + unat sz) * 8) val))"
    by (simp only: quirk_branch [OF assms(1)] rotate_amount [OF assms(1)])
  also have "\<dots> = Some (tiled_write mem buf i val sz)"
    by (simp add: tiled_write_def Let_def fill_u32_fold add_diff_eq)
  finally show ?thesis by (simp add: round_down8_aligned)
qed

theorem quirk_path_is_rotate_then_tile_witness:
  "WriteWithSimulatedQuirks (\<lambda>_. 0) 1 (100 + 1) 0x12347856 2 =
     Some (tiled_write (\<lambda>_. 0) 100 1 0x12347856 2) \<and>
   read_bytes (tiled_write (\<lambda>_. 0) 100 1 0x12347856 2) 100 9 =
     [0x34, 0x78, 0x56, 0x12, 0x34, 0x78, 0x56, 0x12, 0]"
proof -
  have a: "(2 :: u32) \<in> {1, 2, 4}" by simp
  have b: "(1 :: u32) mod 4 \<noteq> 0 \<or> (2 :: u32) < 4" by simp
  have c: "read_bytes (tiled_write (\<lambda>_. 0) 100 1 0x12347856 2) 100 9 =
     [0x34, 0x78, 0x56, 0x12, 0x34, 0x78, 0x56, 0x12, 0]" by code_simp
  have d: "WriteWithSimulatedQuirks (\<lambda>_. 0) 1 (100 + 1) 0x12347856 2 =
     Some (tiled_write (\<lambda>_. 0) 100 1 0x12347856 2)"
    using quirk_path_is_rotate_then_tile [OF a b, of "\<lambda>_. 0" 100 "0x12347856"] by blast
  show ?thesis using c d by blast
qed

text \<open>
  C2. For every size in 1, 2, 4, every offset \<open>i\<close> and every value, the call
  \<open>WriteWithSimulatedQuirks(i, buf + i, value, size)\<close> returns, and afterwards each of
  the \<open>size\<close> bytes at \<open>buf + i + j\<close> (\<open>j < size\<close>) is the corresponding one of the low
  \<open>size\<close> bytes of the big-endian encoding of the value, which is also the byte an
  ordinary \<open>Write\<close> of that size puts there.
\<close>

theorem quirk_write_reassembles_target:
  assumes "sz \<in> {1, 2, 4}" and "j < unat sz"
  shows "\<exists>mem'. WriteWithSimulatedQuirks mem i (buf + i) val sz = Some mem' \<and>
           mem' (buf + i + of_nat j) = be_byte val (4 - unat sz + j) \<and>
           mem' (buf + i + of_nat j) = Write mem (buf + i) val sz False (buf + i + of_nat j)"
proof (cases "i mod 4 \<noteq> 0 \<or> sz < 4")
  case True
  show ?thesis
    using quirk_path_fill [OF assms(1) True, of mem "buf + i" val]
      quirk_target_byte [OF assms True, of mem buf val]
      Write_bytes [OF assms, of mem "buf + i" val]
    by simp
next
  case False
  show ?thesis
    using fast_path [OF False, of mem "buf + i" val] Write_bytes [OF assms, of mem "buf + i" val]
    by simp
qed

theorem quirk_write_reassembles_target_witness:
  "\<exists>mem'. WriteWithSimulatedQuirks (\<lambda>_. 0) 1 (100 + 1) 0x12347856 2 = Some mem' \<and>
          mem' (100 + 1 + of_nat 1) = 0x56"
proof -
  have a: "(2 :: u32) \<in> {1, 2, 4}" by simp
  have b: "(1 :: nat) < unat (2 :: u32)" by simp
  have e: "be_byte 0x12347856 (4 - unat (2 :: u32) + 1) = 0x56" by code_simp
  from quirk_write_reassembles_target [OF a b, of "\<lambda>_. 0" 1 100 "0x12347856"]
  obtain mem' where m: "WriteWithSimulatedQuirks (\<lambda>_. 0) 1 (100 + 1) 0x12347856 2 = Some mem'"
    and t: "mem' (100 + 1 + of_nat 1) = be_byte 0x12347856 (4 - unat (2 :: u32) + 1)"
    by blast
  from t have "mem' (100 + 1 + of_nat 1) = 0x56" by (simp only: e)
  with m show ?thesis by blast
qed

text \<open>
  C3. Whenever a trial of the sweep returns, its expected fault outcome is true exactly
  when the memory is not cache-backed and the mode is Regular or Swap, whatever the size
  and the offset; and for every size up to 32 the trial does return.
\<close>

theorem fault_expected_iff_uncached_plain_store:
  "(run_trial hw mem rb sz cached mode i = Some (t, mem') \<longrightarrow>
      pi_error_expected t = (\<not> cached \<and> (mode = Regular \<or> mode = Swap))) \<and>
   (unat sz \<le> 32 \<longrightarrow> (\<exists>t m. run_trial hw mem rb sz cached mode i = Some (t, m)))"
proof (intro conjI impI)
  assume "run_trial hw mem rb sz cached mode i = Some (t, mem')"
  then show "pi_error_expected t = (\<not> cached \<and> (mode = Regular \<or> mode = Swap))"
    by (cases mode) (auto simp: run_trial_def Let_def split: option.splits)
next
  assume "unat sz \<le> 32"
  from run_trial_returns [OF this] show "\<exists>t m. run_trial hw mem rb sz cached mode i = Some (t, m)"
    by blast
qed

theorem fault_expected_iff_uncached_plain_store_witness:
  "\<exists>t m. run_trial (\<lambda>_. ([], True)) (\<lambda>_. 0) 100 2 False Swap 1 = Some (t, m)
          \<and> pi_error_expected t"
proof -
  have s: "unat (2 :: u32) \<le> 32" by simp
  note inst = fault_expected_iff_uncached_plain_store
    [of "\<lambda>_. ([], True)" "\<lambda>_. 0" 100 2 False Swap 1]
  from inst s
  obtain t m where r: "run_trial (\<lambda>_. ([], True)) (\<lambda>_. 0) 100 2 False Swap 1 = Some (t, m)"
    by blast
  from fault_expected_iff_uncached_plain_store
    [of "\<lambda>_. ([], True)" "\<lambda>_. 0" 100 2 False Swap 1 t m] r
  have "pi_error_expected t" by simp
  with r show ?thesis by blast
qed

text \<open>
  C4, as the claim states it, fails on the swapped word: for size 2 the sweep uses
  0x12347856 (only the low halfword reversed), not 0x78563412.
\<close>

theorem swap_halfword_trial_counterexample:
  "swapped_word Swap 2 \<noteq> 0x78563412"
  by (simp add: swapped_word_def)

text \<open>
  C4, amended. For the trial size 2, mode Swap, offset 1, not cache-backed: the reference
  model uses the word 0x12347856 and the rotation amount is (1 + 2) * 8 = 24 bits. The
  trial's modelled store puts the rotated word 0x34785612 in the two aligned words at
  offsets 0 and 4 of the freshly filled reference buffer, so the trial compares the 32
  real bytes with 34 78 56 12 34 78 56 12 followed by the fill pattern; it expects a
  fault, and its fault test passes exactly when the fault flag reads true.
\<close>

theorem swap_halfword_trial:
  "swapped_word Swap 2 = 0x12347856 \<and>
   (((1 :: u32) AND 3) + 2) * 8 = 24 \<and>
   RotateRight (swapped_word Swap 2) 24 = 0x34785612 \<and>
   WriteWithSimulatedQuirks mem 1 (rb + 1) (swapped_word Swap 2) 2 =
     Some (stwx (stwx mem 0x34785612 rb) 0x34785612 (rb + 4)) \<and>
   reference_store (fill_u32 mem rb 8 fill_word) rb 2 False Swap 1 =
     Some (stwx (stwx (fill_u32 mem rb 8 fill_word) 0x34785612 rb) 0x34785612 (rb + 4)) \<and>
   run_trial hw mem rb 2 False Swap 1 =
     Some (\<lparr>offset = 1,
            data_test = (fst (hw 1) =
              [0x34, 0x78, 0x56, 0x12, 0x34, 0x78, 0x56, 0x12, 1, 2, 3, 4, 1, 2, 3, 4,
               1, 2, 3, 4, 1, 2, 3, 4, 1, 2, 3, 4, 1, 2, 3, 4]),
            pi_error_expected = True,
            pi_error_actual = snd (hw 1),
            pi_test = snd (hw 1)\<rparr>,
           stwx (stwx (fill_u32 mem rb 8 fill_word) 0x34785612 rb) 0x34785612 (rb + 4)) \<and>
   (\<exists>t m. run_trial hw mem rb 2 False Swap 1 = Some (t, m) \<and> pi_error_expected t)"
proof -
  have w: "swapped_word Swap 2 = 0x12347856" by (simp add: swapped_word_def)
  have amount: "(((1 :: u32) AND 3) + 2) * 8 = 24" by simp
  have rot: "RotateRight 0x12347856 24 = 0x34785612" by code_simp
  have a: "(2 :: u32) \<in> {1, 2, 4}" by simp
  have b: "(1 :: u32) mod 4 \<noteq> 0 \<or> (2 :: u32) < 4" by simp
  have r8: "round_up8 (unat ((1 :: u32) mod 8) + unat (2 :: u32)) div 4 = 2"
    by (simp add: round_up8_def)
  have r24: "word_rotr ((unat ((1 :: u32) mod 4) + unat (2 :: u32)) * 8) (0x12347856 :: u32)
             = RotateRight 0x12347856 24"
    by (simp add: RotateRight_def)
  have p: "rb + 1 - (1 :: u32) mod 8 = rb" by simp
  have q: "WriteWithSimulatedQuirks m0 1 (rb + 1) 0x12347856 2 =
     Some (stwx (stwx m0 0x34785612 rb) 0x34785612 (rb + 4))" for m0
    using quirk_path_fill [OF a b, of m0 "rb + 1" "0x12347856"]
    by (simp only: r8 r24 p rot fill_u32_two)
  let ?f = "fill_u32 mem rb 8 fill_word"
  let ?m = "stwx (stwx ?f 0x34785612 rb) 0x34785612 (rb + 4)"
  have st: "reference_store ?f rb 2 False Swap 1 = Some ?m"
    unfolding reference_store_def w by (simp add: q)
  have tr: "run_trial hw mem rb 2 False Swap 1 =
     Some (\<lparr>offset = 1,
            data_test = (fst (hw 1) =
              [0x34, 0x78, 0x56, 0x12, 0x34, 0x78, 0x56, 0x12, 1, 2, 3, 4, 1, 2, 3, 4,
               1, 2, 3, 4, 1, 2, 3, 4, 1, 2, 3, 4, 1, 2, 3, 4]),
            pi_error_expected = True,
            pi_error_actual = snd (hw 1),
            pi_test = snd (hw 1)\<rparr>, ?m)"
    unfolding run_trial_def Let_def st by (simp add: swap_halfword_tile_bytes)
  then have ex: "\<exists>t m. run_trial hw mem rb 2 False Swap 1 = Some (t, m) \<and> pi_error_expected t"
    by simp
  have q': "WriteWithSimulatedQuirks mem 1 (rb + 1) (swapped_word Swap 2) 2 =
     Some (stwx (stwx mem 0x34785612 rb) 0x34785612 (rb + 4))"
    unfolding w by (rule q)
  have rot': "RotateRight (swapped_word Swap 2) 24 = 0x34785612" unfolding w by (rule rot)
  show ?thesis using w amount rot' q' st tr ex by blast
qed

theorem swap_halfword_trial_witness:
  "run_trial (\<lambda>_. ([0x34, 0x78, 0x56, 0x12, 0x34, 0x78, 0x56, 0x12, 1, 2, 3, 4, 1, 2, 3, 4,
                     1, 2, 3, 4, 1, 2, 3, 4, 1, 2, 3, 4, 1, 2, 3, 4], True))
     (\<lambda>_. 0) 100 2 False Swap 1 =
     Some (\<lparr>offset = 1, data_test = True, pi_error_expected = True,
            pi_error_actual = True, pi_test = True\<rparr>,
           stwx (stwx (fill_u32 (\<lambda>_. 0) 100 8 fill_word) 0x34785612 100) 0x34785612 (100 + 4)) \<and>
   read_bytes (stwx (stwx (fill_u32 (\<lambda>_. 0) 100 8 fill_word) 0x34785612 100)
                 0x34785612 (100 + 4)) 100 12 =
     [0x34, 0x78, 0x56, 0x12, 0x34, 0x78, 0x56, 0x12, 1, 2, 3, 4]"
proof -
  have c: "read_bytes (stwx (stwx (fill_u32 (\<lambda>_. 0) 100 8 fill_word) 0x34785612 100)
                 0x34785612 (100 + 4)) 100 12 =
     [0x34, 0x78, 0x56, 0x12, 0x34, 0x78, 0x56, 0x12, 1, 2, 3, 4]" by code_simp
  note inst = swap_halfword_trial [of "\<lambda>_. 0" 100
     "\<lambda>_. ([0x34, 0x78, 0x56, 0x12, 0x34, 0x78, 0x56, 0x12, 1, 2, 3, 4, 1, 2, 3, 4,
            1, 2, 3, 4, 1, 2, 3, 4, 1, 2, 3, 4, 1, 2, 3, 4], True)"]
  from inst have r: "run_trial (\<lambda>_. ([0x34, 0x78, 0x56, 0x12, 0x34, 0x78, 0x56, 0x12, 1, 2, 3, 4, 1, 2, 3, 4,
                     1, 2, 3, 4, 1, 2, 3, 4, 1, 2, 3, 4, 1, 2, 3, 4], True))
     (\<lambda>_. 0) 100 2 False Swap 1 =
     Some (\<lparr>offset = 1, data_test = True, pi_error_expected = True,
            pi_error_actual = True, pi_test = True\<rparr>,
           stwx (stwx (fill_u32 (\<lambda>_. 0) 100 8 fill_word) 0x34785612 100) 0x34785612 (100 + 4))"
    by (simp only: fst_conv snd_conv simp_thms)
  from r c show ?thesis by blast
qed

text \<open>
  C5, as the claim states it, fails at size 0: there the claim has the reference model
  produce the first 32 bytes of the source, but \<open>WriteStswSimulated\<close> copies
  \<open>size\<close> bytes, which is none, and the buffer keeps its fill pattern.
\<close>

theorem string_store_size_zero_counterexample:
  "map_option (\<lambda>m. read_bytes m 100 32)
     (reference_store (fill_u32 (\<lambda>_. 0) 100 8 fill_word) 100 0 False Stswx 0)
   = Some [1, 2, 3, 4, 1, 2, 3, 4, 1, 2, 3, 4, 1, 2, 3, 4,
           1, 2, 3, 4, 1, 2, 3, 4, 1, 2, 3, 4, 1, 2, 3, 4] \<and>
   map_option (\<lambda>m. read_bytes m 100 32)
     (reference_store (fill_u32 (\<lambda>_. 0) 100 8 fill_word) 100 0 False Stswx 0)
   \<noteq> Some (take 32 STSW_VALUES)"
  by code_simp

text \<open>
  C5, amended. For the string modes and every size from 0 to 32, the modelled store of a
  trial returns; it puts exactly the first \<open>size\<close> bytes of the source sequence at the
  destination offset (none for size 0, all 32 for size 32) and changes no other byte;
  the result is the same for cache-backed and other memory, at every offset.
\<close>

theorem string_store_copies_prefix:
  assumes "mode = Stswi \<or> mode = Stswx" and "unat sz \<le> 32"
  shows "\<exists>mem'. reference_store mem rb sz cached mode i = Some mem' \<and>
           read_bytes mem' (rb + i) (unat sz) = take (unat sz) STSW_VALUES \<and>
           (\<forall>a. unat sz \<le> unat (a - (rb + i)) \<longrightarrow> mem' a = mem a) \<and>
           reference_store mem rb sz (\<not> cached) mode i = Some mem'"
proof -
  let ?m = "copy_bytes mem (rb + i) (take (unat sz) STSW_VALUES)"
  have st: "reference_store mem rb sz c mode i = Some ?m" for c
    using assms by (auto simp: reference_store_def WriteStswSimulated_def length_STSW_VALUES)
  have rd: "read_bytes ?m (rb + i) (unat sz) = take (unat sz) STSW_VALUES"
    using assms(2) by (intro read_bytes_copy) (simp_all add: length_STSW_VALUES)
  have fr: "?m a = mem a" if "unat sz \<le> unat (a - (rb + i))" for a
    using that assms(2) by (intro copy_bytes_far) (simp add: length_STSW_VALUES)
  show ?thesis using st rd fr by blast
qed

theorem string_store_copies_prefix_witness:
  "\<exists>mem'. reference_store (\<lambda>_. 0) 100 5 False Stswx 3 = Some mem' \<and>
          read_bytes mem' (100 + 3) (unat (5 :: u32)) = take (unat (5 :: u32)) STSW_VALUES \<and>
          reference_store (\<lambda>_. 0) 100 5 (\<not> False) Stswx 3 = Some mem'"
proof -
  have a: "Stswx = Stswi \<or> Stswx = Stswx" by simp
  have b: "unat (5 :: u32) \<le> 32" by simp
  from string_store_copies_prefix [OF a b, of "\<lambda>_. 0" 100 False 3]
  show ?thesis by blast
qed

text \<open>
  C6. For a Regular or Swap store (size 1, 2 or 4) on memory that is not cache-backed:
  with a size below 4 the reference model runs the rotate-and-tile loop at every offset;
  at a 4-byte-aligned offset that loop stores the rotated value in the two words of the
  enclosing 8-byte tile; and the single direct \<open>Write\<close> is the result exactly when the
  offset is 4-byte-aligned and the size is 4.
\<close>

theorem narrow_store_takes_quirk_path:
  assumes "sz \<in> {1, 2, 4}"
  shows "(sz < 4 \<longrightarrow>
            WriteWithSimulatedQuirks mem i ptr val sz =
              quirk_loop mem ptr (i AND 7) (RotateRight val (((i AND 3) + sz) * 8))
                ((i AND 7) + sz) 0) \<and>
         (sz < 4 \<and> (i AND 3) = 0 \<longrightarrow>
            WriteWithSimulatedQuirks mem i ptr val sz =
              Some (stwx (stwx mem (RotateRight val (sz * 8)) (ptr - (i AND 7)))
                      (RotateRight val (sz * 8)) (ptr - (i AND 7) + 4))) \<and>
         (WriteWithSimulatedQuirks mem i ptr val sz =
            (if (i AND 3) = 0 \<and> sz = 4 then Some (Write mem ptr val sz False)
             else quirk_loop mem ptr (i AND 7) (RotateRight val (((i AND 3) + sz) * 8))
                    ((i AND 7) + sz) 0))"
proof (intro conjI impI)
  assume "sz < 4"
  then show "WriteWithSimulatedQuirks mem i ptr val sz =
              quirk_loop mem ptr (i AND 7) (RotateRight val (((i AND 3) + sz) * 8))
                ((i AND 7) + sz) 0"
    by (simp add: WriteWithSimulatedQuirks_def Let_def)
next
  assume h: "sz < 4 \<and> (i AND 3) = 0"
  then have sz: "sz \<in> {1, 2}" using assms by auto
  have al: "i mod 4 = 0" using h by (simp add: and_3_mod)
  have "WriteWithSimulatedQuirks mem i ptr val sz =
        quirk_loop mem ptr (i AND 7) (RotateRight val (((i AND 3) + sz) * 8)) ((i AND 7) + sz) 0"
    using h by (simp add: WriteWithSimulatedQuirks_def Let_def)
  also have "\<dots> = Some (fill_u32 mem (ptr - i mod 8) 2 (RotateRight val (((i AND 3) + sz) * 8)))"
    by (simp only: quirk_branch [OF assms] aligned_narrow_count [OF sz al])
  finally show "WriteWithSimulatedQuirks mem i ptr val sz =
              Some (stwx (stwx mem (RotateRight val (sz * 8)) (ptr - (i AND 7)))
                      (RotateRight val (sz * 8)) (ptr - (i AND 7) + 4))"
    using h by (simp add: fill_u32_two and_7_mod)
next
  show "WriteWithSimulatedQuirks mem i ptr val sz =
            (if (i AND 3) = 0 \<and> sz = 4 then Some (Write mem ptr val sz False)
             else quirk_loop mem ptr (i AND 7) (RotateRight val (((i AND 3) + sz) * 8))
                    ((i AND 7) + sz) 0)"
    using assms by (auto simp: WriteWithSimulatedQuirks_def Let_def)
qed

theorem narrow_store_takes_quirk_path_witness:
  "WriteWithSimulatedQuirks (\<lambda>_. 0) 4 (100 + 4) 0x12345678 2 =
     Some (stwx (stwx (\<lambda>_. 0) (RotateRight 0x12345678 (2 * 8)) (100 + 4 - (4 AND 7)))
             (RotateRight 0x12345678 (2 * 8)) (100 + 4 - (4 AND 7) + 4)) \<and>
   read_bytes (stwx (stwx (\<lambda>_. 0) (RotateRight 0x12345678 (2 * 8)) (100 + 4 - (4 AND 7)))
             (RotateRight 0x12345678 (2 * 8)) (100 + 4 - (4 AND 7) + 4)) 100 12 =
     [0x56, 0x78, 0x12, 0x34, 0x56, 0x78, 0x12, 0x34, 0, 0, 0, 0]"
proof -
  have a: "(2 :: u32) \<in> {1, 2, 4}" by simp
  have b: "(2 :: u32) < 4 \<and> ((4 :: u32) AND 3) = 0" by simp
  have c: "read_bytes (stwx (stwx (\<lambda>_. 0) (RotateRight 0x12345678 (2 * 8)) (100 + 4 - (4 AND 7)))
             (RotateRight 0x12345678 (2 * 8)) (100 + 4 - (4 AND 7) + 4)) 100 12 =
     [0x56, 0x78, 0x12, 0x34, 0x56, 0x78, 0x12, 0x34, 0, 0, 0, 0]" by code_simp
  from narrow_store_takes_quirk_path [OF a, of "\<lambda>_. 0" 4 "100 + 4" "0x12345678"] b c
  show ?thesis by blast
qed

text \<open>
  C7. For every mode, every size up to 32 and either kind of memory, the sweep returns
  and has run exactly one trial for each offset 0, 1, ..., 32 - size, in that order.
  The trial at offset \<open>k\<close> reports the outcome of both of its tests: the data test
  compares the 32 real bytes found after the store at \<open>k\<close> with the reference buffer
  (filled, then written by the modelled store at \<open>k\<close>), and the fault test compares the
  flag read at \<open>k\<close> with the expectation. This holds for every behaviour \<open>hw\<close> of the
  real store, so a data or fault mismatch at one offset is recorded and the later
  offsets are still run and reported.
\<close>

theorem sweep_runs_every_offset:
  assumes "unat sz \<le> 32"
  shows "\<exists>ts. UnalignedStoresTest hw mem rb sz cached mode = Some ts \<and>
              length ts = 33 - unat sz \<and>
              map offset ts = map of_nat [0..<33 - unat sz] \<and>
              map pi_error_actual ts = map (\<lambda>k. snd (hw (of_nat k))) [0..<33 - unat sz] \<and>
              ts = map (\<lambda>k.
                \<lparr>offset = of_nat k,
                 data_test = (Some (fst (hw (of_nat k))) =
                   map_option (\<lambda>m'. read_bytes m' rb 32)
                     (reference_store (fill_u32 mem rb 8 fill_word) rb sz cached mode (of_nat k))),
                 pi_error_expected = (\<not> cached \<and> (mode = Regular \<or> mode = Swap)),
                 pi_error_actual = snd (hw (of_nat k)),
                 pi_test = (snd (hw (of_nat k)) = (\<not> cached \<and> (mode = Regular \<or> mode = Swap)))\<rparr>)
                [0..<33 - unat sz]"
proof -
  have z: "unat (0 :: u32) \<le> 33 - unat sz" by simp
  have "sweep_loop hw mem rb sz cached mode 0 [] = Some ([] @ map (\<lambda>k.
                \<lparr>offset = of_nat k,
                 data_test = (Some (fst (hw (of_nat k))) =
                   map_option (\<lambda>m'. read_bytes m' rb 32)
                     (reference_store (fill_u32 mem rb 8 fill_word) rb sz cached mode (of_nat k))),
                 pi_error_expected = (\<not> cached \<and> (mode = Regular \<or> mode = Swap)),
                 pi_error_actual = snd (hw (of_nat k)),
                 pi_test = (snd (hw (of_nat k)) = (\<not> cached \<and> (mode = Regular \<or> mode = Swap)))\<rparr>)
                [unat (0 :: u32)..<33 - unat sz])"
    by (rule sweep_loop_reports [OF assms z refl])
  then show ?thesis by (simp add: UnalignedStoresTest_def comp_def)
qed

theorem sweep_runs_every_offset_witness:
  "\<exists>ts. UnalignedStoresTest (\<lambda>i. ([], i = 3)) (\<lambda>_. 0) 100 2 False Swap = Some ts \<and>
        length ts = 31 \<and>
        map offset ts = map of_nat [0..<31] \<and>
        map pi_test ts = map (\<lambda>k. (of_nat k :: u32) = 3) [0..<31] \<and>
        map data_test ts = replicate 31 False"
proof -
  have a: "unat (2 :: u32) \<le> 32" by simp
  have n: "33 - unat (2 :: u32) = 31" by simp
  from sweep_runs_every_offset [OF a, of "\<lambda>i. ([], i = 3)" "\<lambda>_. 0" 100 False Swap]
  obtain ts where r: "UnalignedStoresTest (\<lambda>i. ([], i = 3)) (\<lambda>_. 0) 100 2 False Swap = Some ts"
    and len: "length ts = 31"
    and offs: "map offset ts = map of_nat [0..<31]"
    and all: "ts = map (\<lambda>k.
                \<lparr>offset = of_nat k,
                 data_test = (Some [] =
                   map_option (\<lambda>m'. read_bytes m' 100 32)
                     (reference_store (fill_u32 (\<lambda>_. 0) 100 8 fill_word) 100 2 False Swap (of_nat k))),
                 pi_error_expected = (\<not> False \<and> (Swap = Regular \<or> Swap = Swap)),
                 pi_error_actual = ((of_nat k :: u32) = 3),
                 pi_test = (((of_nat k :: u32) = 3) = (\<not> False \<and> (Swap = Regular \<or> Swap = Swap)))\<rparr>)
                [0..<31]"
    unfolding n fst_conv snd_conv by blast
  have pt: "map pi_test ts = map (\<lambda>k. (of_nat k :: u32) = 3) [0..<31]"
    by (subst all) (simp add: comp_def del: upt_Suc)
  have nomatch: "(Some ([] :: u8 list) =
                   map_option (\<lambda>m'. read_bytes m' 100 32)
                     (reference_store (fill_u32 (\<lambda>_. 0) 100 8 fill_word) 100 2 False Swap i)) = False"
    for i
  proof -
    obtain m where "reference_store (fill_u32 (\<lambda>_. 0) 100 8 fill_word) 100 2 False Swap i = Some m"
      using reference_store_returns [OF a] by blast
    then show ?thesis by (simp add: read_bytes_def)
  qed
  have dt: "map data_test ts = replicate 31 False"
    by (subst all) (simp add: comp_def nomatch map_replicate_const del: upt_Suc)
  from r len offs pt dt show ?thesis by blast
qed

text \<open>
  C8. \<open>WriteStswi\<close> picks its implementation by indexing a table with the requested
  count reduced modulo 32, an index that is always inside the table of 32 entries. A count
  of 0 and a count of 32 both select the implementation with immediate 0, whose
  instruction stores 32 bytes; with the 32 source bytes staged, every count from 1 to 32
  stores exactly that many bytes.
\<close>

theorem stswi_dispatch_by_table:
  "unat (out_size AND 31) < length stswi_table \<and>
   WriteStswi mem out_ptr in_bytes out_size in_size =
     WriteStswiImpl (unat out_size mod 32) mem out_ptr in_bytes in_size \<and>
   WriteStswi mem out_ptr in_bytes 0 in_size = WriteStswiImpl 0 mem out_ptr in_bytes in_size \<and>
   WriteStswi mem out_ptr in_bytes 32 in_size = WriteStswiImpl 0 mem out_ptr in_bytes in_size \<and>
   stswi_bytes 0 = 32 \<and>
   WriteStswiImpl 0 mem out_ptr STSW_VALUES 32 = Some (copy_bytes mem out_ptr STSW_VALUES) \<and>
   (1 \<le> unat out_size \<and> unat out_size \<le> 32 \<longrightarrow>
      WriteStswi mem out_ptr STSW_VALUES out_size 32 =
        Some (copy_bytes mem out_ptr (take (unat out_size) STSW_VALUES)))"
proof (intro conjI impI)
  show "unat (out_size AND 31) < length stswi_table"
    by (simp add: unat_and_31 stswi_table_upt)
  show "WriteStswi mem out_ptr in_bytes out_size in_size =
     WriteStswiImpl (unat out_size mod 32) mem out_ptr in_bytes in_size"
    by (rule WriteStswi_dispatch)
  show "WriteStswi mem out_ptr in_bytes 0 in_size = WriteStswiImpl 0 mem out_ptr in_bytes in_size"
    by (simp add: WriteStswi_dispatch)
  show "WriteStswi mem out_ptr in_bytes 32 in_size = WriteStswiImpl 0 mem out_ptr in_bytes in_size"
    by (simp add: WriteStswi_dispatch)
  show "stswi_bytes 0 = 32" by (simp add: stswi_bytes_def)
  show "WriteStswiImpl 0 mem out_ptr STSW_VALUES 32 = Some (copy_bytes mem out_ptr STSW_VALUES)"
    by (simp add: WriteStswiImpl_def stswi_bytes_def length_STSW_VALUES)
next
  assume h: "1 \<le> unat out_size \<and> unat out_size \<le> 32"
  then have "stswi_bytes (unat out_size mod 32) = unat out_size"
    by (cases "unat out_size = 32") (auto simp: stswi_bytes_def)
  then show "WriteStswi mem out_ptr STSW_VALUES out_size 32 =
        Some (copy_bytes mem out_ptr (take (unat out_size) STSW_VALUES))"
    using h by (simp add: WriteStswi_dispatch WriteStswiImpl_def length_STSW_VALUES)
qed

theorem stswi_dispatch_by_table_witness:
  "WriteStswi (\<lambda>_. 0) 100 STSW_VALUES 32 32 =
     Some (copy_bytes (\<lambda>_. 0) 100 (take (unat (32 :: u32)) STSW_VALUES)) \<and>
   read_bytes (copy_bytes (\<lambda>_. 0) 100 (take (unat (32 :: u32)) STSW_VALUES)) 100 33 =
     STSW_VALUES @ [0]"
proof -
  have h: "1 \<le> unat (32 :: u32) \<and> unat (32 :: u32) \<le> 32" by simp
  have c: "read_bytes (copy_bytes (\<lambda>_. 0) 100 (take (unat (32 :: u32)) STSW_VALUES)) 100 33 =
     STSW_VALUES @ [0]" by code_simp
  from stswi_dispatch_by_table [of 32 "\<lambda>_. 0" 100 STSW_VALUES 32] h c
  show ?thesis by blast
qed

text \<open>
  C9. Rotating a 32-bit value right by (offset mod 4 + size) * 8 bits and then left by
  the same amount gives the value back, for every offset and every size (so for the
  test pattern and the sizes 1, 2 and 4).
\<close>

theorem rotation_round_trip:
  "RotateLeft (RotateRight val ((i mod 4 + sz) * 8)) ((i mod 4 + sz) * 8) = val"
  by (simp add: RotateLeft_def RotateRight_def)

text \<open>
  C10. For every size in 1, 2, 4 and every offset \<open>i\<close> admitted by the loop
  (\<open>i \<le> 32 - size\<close>), the call \<open>WriteWithSimulatedQuirks(i, buf + i, value, size)\<close>
  returns and leaves every byte outside the window \<open>[buf, buf + 32)\<close> as it was,
  whatever the memory held before; the tiles start at the offset \<open>i - i mod 8\<close> and end
  at or before offset 32.
\<close>

theorem quirk_write_stays_in_window:
  assumes "sz \<in> {1, 2, 4}" and "i \<le> 32 - sz"
  shows "\<exists>mem'. WriteWithSimulatedQuirks mem i (buf + i) val sz = Some mem' \<and>
           (\<forall>a. 32 \<le> unat (a - buf) \<longrightarrow> mem' a = mem a) \<and>
           unat (i - i mod 8) + round_up8 (unat (i mod 8) + unat sz) \<le> 32"
proof -
  have bound: "unat i + unat sz \<le> 32" by (rule unat_bound [OF assms])
  have tiles: "unat (i - i mod 8) + round_up8 (unat (i mod 8) + unat sz) \<le> 32"
    using tiles_in_window [OF bound] by (simp add: unat_round_down8 unat_mod)
  show ?thesis
  proof (cases "i mod 4 \<noteq> 0 \<or> sz < 4")
    case True
    show ?thesis
      using quirk_path_fill [OF assms(1) True, of mem "buf + i" val]
        quirk_tiles_frame [OF bound, of _ buf mem] tiles
      by simp
  next
    case False
    then have sz: "sz = 4" using assms(1) by auto
    have "stwx mem val (buf + i) a = mem a" if "32 \<le> unat (a - buf)" for a
    proof (rule stwx_far)
      have "a - (buf + i) = (a - buf) - i" by simp
      moreover have "unat ((a - buf) - i) = unat (a - buf) - unat i"
        using bound that by (intro unat_offset_sub) linarith
      ultimately have "unat (a - (buf + i)) = unat (a - buf) - unat i" by (simp only:)
      then show "4 \<le> unat (a - (buf + i))" using bound that sz by simp
    qed
    then show ?thesis
      using fast_path [OF False, of mem "buf + i" val] tiles sz by (simp add: Write_4)
  qed
qed

theorem quirk_write_stays_in_window_witness:
  "\<exists>mem'. WriteWithSimulatedQuirks (\<lambda>_. 0) 23 (100 + 23) 0x12347856 2 = Some mem' \<and>
          mem' (100 + 32) = 0 \<and> mem' (100 + 40) = 0"
proof -
  have a: "(2 :: u32) \<in> {1, 2, 4}" by simp
  have b: "(23 :: u32) \<le> 32 - 2" by simp
  from quirk_write_stays_in_window [OF a b, of "\<lambda>_. 0" 100 "0x12347856"]
  obtain mem' where m: "WriteWithSimulatedQuirks (\<lambda>_. 0) 23 (100 + 23) 0x12347856 2 = Some mem'"
    and f: "\<And>a. 32 \<le> unat (a - (100 :: u32)) \<Longrightarrow> mem' a = 0"
    by blast
  have "mem' (100 + 32) = 0" by (rule f) simp
  moreover have "mem' (100 + 40) = 0" by (rule f) simp
  ultimately show ?thesis using m by blast
qed


end
